theory Spec2Isabelle
  imports Main "HOL-Library.Word" "HOL-Library.Signed_Division"
begin

unbundle bit_operations_syntax

section \<open>The qcow2 header inspector\<close>

text \<open>
  The program is a single Go file, \<^verbatim>\<open>qcow2.go\<close>. Its \<^verbatim>\<open>main\<close> opens every file
  named on the command line, reads the 72-byte version-2 header, checks the magic
  signature, decodes the fixed fields, reads 32 further bytes when the version is 3,
  then reads \<^verbatim>\<open>HeaderLength\<close> further bytes and walks them as a chain of extension
  records. The embedding follows that text line by line for one file.

  Go's \<^verbatim>\<open>int\<close> is taken to be 64 bits wide (as on every 64-bit platform), so the
  conversion \<^verbatim>\<open>int(uint32)\<close> is the unsigned value and no arithmetic of the program
  leaves the range of \<^verbatim>\<open>int\<close>: the values are modelled as \<^typ>\<open>int\<close>.
\<close>

subsection \<open>Failures\<close>

text \<open>
  The program stops on a file, other than by finishing, in four ways: a read error
  reported by \<^verbatim>\<open>fh.Read\<close>, the message \<^verbatim>\<open>short read\<close>, the message
  \<^verbatim>\<open>Does not appear to be qcow file\<close> (each followed by \<^verbatim>\<open>os.Exit(1)\<close>), or a
  run-time panic of the Go runtime for a slice expression or an index out of range.
\<close>

datatype error = ReadError | ShortRead | BadMagic | Panic

definition and_then :: "error + 'a \<Rightarrow> ('a \<Rightarrow> error + 'b) \<Rightarrow> error + 'b" where
  "and_then r f = (case r of Inl e \<Rightarrow> Inl e | Inr v \<Rightarrow> f v)"

subsection \<open>Bytes, slices and big-endian integers\<close>

type_synonym byte = "8 word"

text \<open>
  A slice is modelled by the list of its elements. Every slice of the program is
  made by \<^verbatim>\<open>make\<close> or cut from one whose length equals its capacity, and cutting
  \<^verbatim>\<open>b[lo:hi]\<close> or \<^verbatim>\<open>b[lo:]\<close> keeps that, so the run-time check
  \<^verbatim>\<open>0 <= lo <= hi <= cap(b)\<close> is a check against the length.
\<close>

definition slice :: "int \<Rightarrow> int \<Rightarrow> byte list \<Rightarrow> error + byte list" where
  "slice lo hi b =
     (if 0 \<le> lo \<and> lo \<le> hi \<and> hi \<le> int (length b)
      then Inr (take (nat (hi - lo)) (drop (nat lo) b))
      else Inl Panic)"

definition slice_from :: "int \<Rightarrow> byte list \<Rightarrow> error + byte list" where
  "slice_from lo b =
     (if 0 \<le> lo \<and> lo \<le> int (length b) then Inr (drop (nat lo) b) else Inl Panic)"

text \<open>
  \<^verbatim>\<open>binary.BigEndian.Uint32\<close> and \<^verbatim>\<open>Uint64\<close> of the standard library: a bounds
  check on the last byte they use, then the bytes shifted into place. They look at the
  first four (eight) bytes only, whatever the length of the slice.
\<close>

definition Uint32 :: "byte list \<Rightarrow> error + 32 word" where
  "Uint32 b =
     (if length b < 4 then Inl Panic
      else Inr (ucast (b ! 3) OR push_bit 8 (ucast (b ! 2)) OR
                push_bit 16 (ucast (b ! 1)) OR push_bit 24 (ucast (b ! 0))))"

definition Uint64 :: "byte list \<Rightarrow> error + 64 word" where
  "Uint64 b =
     (if length b < 8 then Inl Panic
      else Inr (ucast (b ! 7) OR push_bit 8 (ucast (b ! 6)) OR
                push_bit 16 (ucast (b ! 5)) OR push_bit 24 (ucast (b ! 4)) OR
                push_bit 32 (ucast (b ! 3)) OR push_bit 40 (ucast (b ! 2)) OR
                push_bit 48 (ucast (b ! 1)) OR push_bit 56 (ucast (b ! 0))))"

definition be32 :: "byte list \<Rightarrow> error + int" where
  "be32 b = and_then (Uint32 b) (\<lambda>w. Inr (uint w))"

definition be64 :: "byte list \<Rightarrow> error + int" where
  "be64 b = and_then (Uint64 b) (\<lambda>w. Inr (sint w))"

definition Qcow2Magic :: "byte list" where
  "Qcow2Magic = [0x51, 0x46, 0x49, 0xFB]"

definition Qcow2V2HeaderSize :: int where
  "Qcow2V2HeaderSize = 72"

definition Qcow2V3HeaderSize :: int where
  "Qcow2V3HeaderSize = 104 - Qcow2V2HeaderSize"

definition HdrExtEndOfArea :: int where
  "HdrExtEndOfArea = 0x00000000"

definition HdrExtBackingFileFormat :: int where
  "HdrExtBackingFileFormat = 0xE2792ACA"

definition HdrExtFeatureNameTable :: int where
  "HdrExtFeatureNameTable = 0x6803f857"

subsection \<open>The decoded data\<close>

record ExtHeader =
  Type :: int
  Size :: int
  Data :: "byte list"

text \<open>
  The field \<^verbatim>\<open>Size\<close> of \<^verbatim>\<open>Header\<close> is written \<open>Size_hdr\<close> here, the name
  \<open>Size\<close> being the field of \<^verbatim>\<open>ExtHeader\<close>.
\<close>

record Header =
  Version :: int
  BackingFileOffset :: int
  BackingFileSize :: int
  ClusterBits :: int
  Size_hdr :: int
  CryptMethod :: int
  L1Size :: int
  L1TableOffset :: int
  RefcountTableOffset :: int
  RefcountTableClusters :: int
  NbSnapshots :: int
  SnapshotsOffset :: int
  IncompatibleFeatures :: int
  CompatibleFeatures :: int
  AutoclearFeatures :: int
  RefcountOrder :: int
  HeaderLength :: int
  ExtHeaders :: "ExtHeader list"

subsection \<open>The file being read\<close>

text \<open>
  An open regular file: its bytes and the read offset. \<^verbatim>\<open>fh.Read(b)\<close> of the
  standard library copies \<open>min (len b) (bytes left)\<close> bytes to the front of \<open>b\<close>
  and advances the offset; it returns \<open>0, nil\<close> for an empty \<open>b\<close> and
  \<open>0, io.EOF\<close> when no byte is left. The result is the count or the error, the
  destination after the call, and the file after the call.
\<close>

record File =
  content :: "byte list"
  offset :: nat

definition Read :: "File \<Rightarrow> byte list \<Rightarrow> (error + int) \<times> byte list \<times> File" where
  "Read fh b =
     (let avail = drop (offset fh) (content fh);
          n = min (length b) (length avail)
      in if length b = 0 then (Inr 0, b, fh)
         else if n = 0 then (Inl ReadError, b, fh)
         else (Inr (int n), take n avail @ drop n b, fh\<lparr>offset := offset fh + n\<rparr>))"

definition make :: "int \<Rightarrow> error + byte list" where
  "make n = (if n < 0 then Inl Panic else Inr (replicate (nat n) 0))"

subsection \<open>Decoding the header: lines 22 to 70 of main\<close>

definition be32_at :: "int \<Rightarrow> int \<Rightarrow> byte list \<Rightarrow> error + int" where
  "be32_at lo hi buf = and_then (slice lo hi buf) be32"

definition be64_at :: "int \<Rightarrow> int \<Rightarrow> byte list \<Rightarrow> error + int" where
  "be64_at lo hi buf = and_then (slice lo hi buf) be64"

text \<open>The composite literal of line 38; the fields it does not name are zero.\<close>

definition header_literal :: "byte list \<Rightarrow> error + Header" where
  "header_literal buf =
     and_then (be32_at 4 8 buf) (\<lambda>version.
     and_then (be64_at 8 16 buf) (\<lambda>backing_file_offset.
     and_then (be32_at 16 20 buf) (\<lambda>backing_file_size.
     and_then (be32_at 20 24 buf) (\<lambda>cluster_bits.
     and_then (be64_at 24 32 buf) (\<lambda>size.
     and_then (be32_at 32 36 buf) (\<lambda>crypt_method.
     and_then (be32_at 36 40 buf) (\<lambda>l1_size.
     and_then (be64_at 40 48 buf) (\<lambda>l1_table_offset.
     and_then (be64_at 48 56 buf) (\<lambda>refcount_table_offset.
     and_then (be32_at 56 60 buf) (\<lambda>refcount_table_clusters.
     and_then (be32_at 60 64 buf) (\<lambda>nb_snapshots.
     and_then (be64_at 64 72 buf) (\<lambda>snapshots_offset.
       Inr \<lparr>Version = version,
            BackingFileOffset = backing_file_offset,
            BackingFileSize = backing_file_size,
            ClusterBits = cluster_bits,
            Size_hdr = size,
            CryptMethod = crypt_method,
            L1Size = l1_size,
            L1TableOffset = l1_table_offset,
            RefcountTableOffset = refcount_table_offset,
            RefcountTableClusters = refcount_table_clusters,
            NbSnapshots = nb_snapshots,
            SnapshotsOffset = snapshots_offset,
            IncompatibleFeatures = 0,
            CompatibleFeatures = 0,
            AutoclearFeatures = 0,
            RefcountOrder = 0,
            HeaderLength = 72,
            ExtHeaders = []\<rparr>))))))))))))"

text \<open>Lines 65 to 69: the assignments of the version-3 branch.\<close>

definition v3_fields :: "byte list \<Rightarrow> Header \<Rightarrow> error + Header" where
  "v3_fields buf q =
     and_then (be32_at 0 8 buf) (\<lambda>incompatible.
     and_then (be32_at 8 16 buf) (\<lambda>compatible.
     and_then (be32_at 16 24 buf) (\<lambda>autoclear.
     and_then (be32_at 24 28 buf) (\<lambda>refcount_order.
     and_then (be32_at 28 32 buf) (\<lambda>header_length.
       Inr (q\<lparr>IncompatibleFeatures := incompatible,
              CompatibleFeatures := compatible,
              AutoclearFeatures := autoclear,
              RefcountOrder := refcount_order,
              HeaderLength := header_length\<rparr>))))))"

text \<open>
  The second read goes into \<^verbatim>\<open>buf[:Qcow2V3HeaderSize]\<close>, a view of the same array:
  what it stores replaces the front of \<open>buf\<close>.
\<close>

definition decodeHeader :: "File \<Rightarrow> error + Header \<times> File" where
  "decodeHeader fh =
     and_then (make Qcow2V2HeaderSize) (\<lambda>buf0.
     case Read fh buf0 of (r, buf, fh1) \<Rightarrow>
     and_then r (\<lambda>size.
     if size < Qcow2V2HeaderSize then Inl ShortRead else
     and_then (slice 0 4 buf) (\<lambda>m.
     if m \<noteq> Qcow2Magic then Inl BadMagic else
     and_then (header_literal buf) (\<lambda>q.
     if Version q = 3 then
       and_then (slice 0 Qcow2V3HeaderSize buf) (\<lambda>dst.
       case Read fh1 dst of (r3, dst3, fh2) \<Rightarrow>
       and_then r3 (\<lambda>size3.
       if size3 < Qcow2V3HeaderSize then Inl ShortRead else
       and_then (v3_fields (dst3 @ drop (length dst3) buf) q) (\<lambda>q3.
         Inr (q3, fh2))))
     else Inr (q, fh1)))))"

subsection \<open>Reading the extension area: lines 76 to 85\<close>

definition readExtensionArea :: "Header \<Rightarrow> File \<Rightarrow> error + byte list" where
  "readExtensionArea q fh =
     and_then (make (HeaderLength q)) (\<lambda>buf0.
     case Read fh buf0 of (r, buf, fh1) \<Rightarrow>
     and_then r (\<lambda>size.
     if size < HeaderLength q then Inl ShortRead else Inr buf))"

subsection \<open>Walking the extension records: lines 86 to 101\<close>

text \<open>
  One turn of the loop either leaves it (the type is \<^verbatim>\<open>HdrExtEndOfArea\<close>) or yields
  the record and the re-sliced buffer. Go's \<^verbatim>\<open>%\<close> truncates towards zero: it is
  \<open>smod\<close>.
\<close>

datatype turn = Break | Next ExtHeader "byte list"

definition loop_body :: "byte list \<Rightarrow> error + turn" where
  "loop_body buf =
     and_then (be32_at 0 4 buf) (\<lambda>t.
     if t = HdrExtEndOfArea then Inr Break else
     and_then (be32_at 4 8 buf) (\<lambda>sz.
     and_then (slice 8 (8 + sz) buf) (\<lambda>data.
     let exthdr = \<lparr>Type = t, Size = sz, Data = data\<rparr>;
         round = Size exthdr smod 8
     in and_then (slice_from (8 + Size exthdr + round) buf) (\<lambda>rest.
          Inr (Next exthdr rest)))))"

lemma and_then_Inr:
  "and_then r f = Inr y \<longleftrightarrow> (\<exists>v. r = Inr v \<and> f v = Inr y)"
  by (cases r) (simp_all add: and_then_def)

lemma be32_range:
  assumes "be32 b = Inr v"
  shows "0 \<le> v" and "v < 2 ^ 32"
proof -
  from assms obtain w :: "32 word" where "v = uint w"
    by (auto simp: be32_def and_then_Inr)
  then show "0 \<le> v" and "v < 2 ^ 32"
    using uint_bounded [of w] by simp_all
qed

lemma be32_at_range:
  assumes "be32_at lo hi buf = Inr v"
  shows "0 \<le> v" and "v < 2 ^ 32"
  using assms be32_range by (auto simp: be32_at_def and_then_Inr)

lemma loop_body_Next:
  "loop_body buf = Inr (Next h rest) \<longleftrightarrow>
     (\<exists>t sz data. be32_at 0 4 buf = Inr t \<and> t \<noteq> HdrExtEndOfArea \<and>
        be32_at 4 8 buf = Inr sz \<and> slice 8 (8 + sz) buf = Inr data \<and>
        h = \<lparr>Type = t, Size = sz, Data = data\<rparr> \<and>
        slice_from (8 + sz + sz smod 8) buf = Inr rest)"
  by (auto simp: loop_body_def and_then_Inr Let_def)

lemma smod_8_nonneg: "0 \<le> (a::int) \<Longrightarrow> a smod 8 = a mod 8"
  by (simp add: signed_modulo_int_def sgn_if)

lemma loop_body_shorter:
  assumes "loop_body buf = Inr (Next h rest)"
  shows "length rest < length buf"
proof -
  from assms obtain sz where sz: "be32_at 4 8 buf = Inr sz"
    and rest: "slice_from (8 + sz + sz smod 8) buf = Inr rest"
    by (auto simp: loop_body_Next)
  from sz have "0 \<le> sz" by (rule be32_at_range)
  then have "0 \<le> sz smod 8" by (simp add: smod_8_nonneg)
  with \<open>0 \<le> sz\<close> rest show ?thesis
    by (auto simp: slice_from_def split: if_splits)
qed

function walkExtensions :: "ExtHeader list \<Rightarrow> byte list \<Rightarrow> error + ExtHeader list" where
  "walkExtensions exts buf =
     (case loop_body buf of
        Inl e \<Rightarrow> Inl e
      | Inr Break \<Rightarrow> Inr exts
      | Inr (Next exthdr rest) \<Rightarrow> walkExtensions (exts @ [exthdr]) rest)"
  by pat_completeness auto
termination
  by (relation "measure (\<lambda>(exts, buf). length buf)") (auto dest: loop_body_shorter)

declare walkExtensions.simps [simp del]

subsection \<open>One file, from the first read to the end of the walk\<close>

definition main_file :: "File \<Rightarrow> error + Header" where
  "main_file fh =
     and_then (decodeHeader fh) (\<lambda>(q, fh1).
     and_then (readExtensionArea q fh1) (\<lambda>buf.
     and_then (walkExtensions (ExtHeaders q) buf) (\<lambda>exts.
       Inr (q\<lparr>ExtHeaders := exts\<rparr>))))"

section \<open>Vocabulary of the statements\<close>

text \<open>
  The statements below speak of the integer that a run of bytes denotes in big-endian
  order, of the bytes \<open>[lo:hi]\<close> of a file or buffer, of a file as it is just after
  \<^verbatim>\<open>os.Open\<close>, and of the cursor of the walk: the offset, in the buffer handed to
  the walk, at which the loop stands after \<open>n\<close> records (there is none when the loop
  has left or failed before).
\<close>

definition big_endian :: "byte list \<Rightarrow> int" where
  "big_endian bs = foldl (\<lambda>v b. v * 256 + uint b) 0 bs"

definition bytes_at :: "nat \<Rightarrow> nat \<Rightarrow> byte list \<Rightarrow> byte list" where
  "bytes_at lo hi bs = take (hi - lo) (drop lo bs)"

definition open_file :: "byte list \<Rightarrow> File" where
  "open_file bs = \<lparr>content = bs, offset = 0\<rparr>"

fun cursor_after :: "nat \<Rightarrow> byte list \<Rightarrow> nat option" where
  "cursor_after 0 buf = Some 0"
| "cursor_after (Suc n) buf =
     (case loop_body buf of
        Inr (Next exthdr rest) \<Rightarrow>
          map_option (\<lambda>k. length buf - length rest + k) (cursor_after n rest)
      | _ \<Rightarrow> None)"

text \<open>The stride that the format prescribes for a payload of \<open>s\<close> bytes.\<close>

definition aligned_stride :: "int \<Rightarrow> int" where
  "aligned_stride s = 8 + s + (if s mod 8 = 0 then 0 else 8 - s mod 8)"

section \<open>Inputs used as instances\<close>

text \<open>
  Four files. \<open>not_qcow\<close> differs from the signature in its fourth byte. \<open>v2_file\<close>
  and \<open>v4_file\<close> are 72 bytes with the signature, the version 2 or 4, and zeros.
  \<open>v3_file\<close> has version 3, the three feature fields 1, 2 and 4 (as 64-bit values, in
  their last byte), refcount order 4, header length 8, and then eight zero bytes.
\<close>

definition not_qcow :: "byte list" where
  "not_qcow = [0x51, 0x46, 0x49, 0xFA, 0, 0, 0, 3] @ replicate 64 0xFF"

definition v2_file :: "byte list" where
  "v2_file = [0x51, 0x46, 0x49, 0xFB, 0, 0, 0, 2] @ replicate 64 0"

definition v4_file :: "byte list" where
  "v4_file = [0x51, 0x46, 0x49, 0xFB, 0, 0, 0, 4] @ replicate 64 0"

definition v3_file :: "byte list" where
  "v3_file = [0x51, 0x46, 0x49, 0xFB, 0, 0, 0, 3] @ replicate 64 0 @
             [0, 0, 0, 0, 0, 0, 0, 1,   0, 0, 0, 0, 0, 0, 0, 2,   0, 0, 0, 0, 0, 0, 0, 4,
              0, 0, 0, 4,   0, 0, 0, 8] @
             [0, 0, 0, 0, 0, 0, 0, 0]"

text \<open>
  Six extension areas. \<open>ext_size5\<close> holds a record of type 1 with a 5-byte payload and
  its 3 bytes of padding, a record of type 2 with no payload, and the terminator;
  \<open>ext_size8\<close> is the same with an 8-byte payload. In \<open>ext_truncated\<close> the second
  record declares 9 bytes and 8 remain. \<open>ext_unterminated\<close> is two empty records and
  nothing more. \<open>ext_other_tags\<close> holds a record with the tag \<open>0x12345678\<close>, one with
  the backing-file-format tag, and the terminator; \<open>other_tags_records\<close> are its two
  records. \<open>ext_named_tags\<close> holds a backing-file-format record with the 5-byte
  payload \<open>qcow2\<close> and its 3 bytes of padding, a feature-name-table record with no
  payload, and the terminator.
\<close>

definition ext_size5 :: "byte list" where
  "ext_size5 = [0, 0, 0, 1,   0, 0, 0, 5,   1, 2, 3, 4, 5,   0, 0, 0,
                0, 0, 0, 2,   0, 0, 0, 0,
                0, 0, 0, 0,   0, 0, 0, 0]"

definition ext_size8 :: "byte list" where
  "ext_size8 = [0, 0, 0, 1,   0, 0, 0, 8,   1, 2, 3, 4, 5, 6, 7, 8,
                0, 0, 0, 2,   0, 0, 0, 0,
                0, 0, 0, 0,   0, 0, 0, 0]"

definition ext_truncated :: "byte list" where
  "ext_truncated = [0, 0, 0, 1,   0, 0, 0, 0,
                    0, 0, 0, 2,   0, 0, 0, 9,   1, 2, 3, 4, 5, 6, 7, 8]"

definition ext_unterminated :: "byte list" where
  "ext_unterminated = [0, 0, 0, 1,   0, 0, 0, 0,
                       0, 0, 0, 2,   0, 0, 0, 0]"

definition ext_other_tags :: "byte list" where
  "ext_other_tags = [0x12, 0x34, 0x56, 0x78,   0, 0, 0, 4,   9, 8, 7, 6,   0, 0, 0, 0,
                     0xE2, 0x79, 0x2A, 0xCA,   0, 0, 0, 8,   0x71, 0x63, 0x6F, 0x77, 0x32, 0, 0, 0,
                     0, 0, 0, 0,   0, 0, 0, 0]"

definition ext_named_tags :: "byte list" where
  "ext_named_tags = [0xE2, 0x79, 0x2A, 0xCA,   0, 0, 0, 5,   0x71, 0x63, 0x6F, 0x77, 0x32,   0, 0, 0,
                     0x68, 0x03, 0xF8, 0x57,   0, 0, 0, 0,
                     0, 0, 0, 0,   0, 0, 0, 0]"

definition other_tags_records :: "ExtHeader list" where
  "other_tags_records =
     [\<lparr>Type = 0x12345678, Size = 4, Data = [9, 8, 7, 6]\<rparr>,
      \<lparr>Type = HdrExtBackingFileFormat, Size = 8,
        Data = [0x71, 0x63, 0x6F, 0x77, 0x32, 0, 0, 0]\<rparr>]"

section \<open>Big-endian reads\<close>

lemma or_push_bit_int:
  fixes a b :: int
  assumes "0 \<le> a" "a < 2 ^ n"
  shows "a OR push_bit n b = a + b * 2 ^ n"
proof -
  have a: "take_bit n a = a"
    using assms by (simp add: take_bit_int_eq_self)
  have "a AND push_bit n b = 0"
  proof (rule bit_eqI)
    fix k
    have "bit a k \<Longrightarrow> k < n"
      using a by (metis bit_take_bit_iff)
    then show "bit (a AND push_bit n b) k = bit (0::int) k"
      by (auto simp: bit_and_iff bit_push_bit_iff)
  qed
  then have "a + push_bit n b = a OR push_bit n b"
    by (rule disjunctive_add_eq_or)
  then show ?thesis
    by (simp add: push_bit_eq_mult)
qed

lemma uint_byte_range: "0 \<le> uint (b::8 word)" "uint (b::8 word) < 256"
  using uint_bounded [of b] by simp_all

lemma uint_push_byte:
  assumes "n \<le> 24"
  shows "uint (push_bit n (ucast (b::8 word)) :: 32 word) = push_bit n (uint b)"
proof -
  have "uint b * 2 ^ n < 2 ^ 8 * 2 ^ n"
    using uint_byte_range [of b] by simp
  also have "\<dots> = (2::int) ^ (8 + n)"
    by (simp add: power_add)
  also have "\<dots> \<le> 2 ^ 32"
    using assms by (intro power_increasing) simp_all
  finally have small: "uint b * 2 ^ n < 2 ^ 32" .
  have tb: "take_bit 32 (uint b) = uint b"
    using uint_byte_range [of b] by (simp add: take_bit_int_eq_self)
  have "uint (push_bit n (ucast b) :: 32 word)
      = take_bit 32 (push_bit n (take_bit 32 (uint b)))"
    by (simp add: unsigned_push_bit_eq unsigned_ucast_eq)
  also have "\<dots> = push_bit n (uint b)"
    using small by (simp add: tb take_bit_int_eq_self push_bit_eq_mult)
  finally show ?thesis .
qed

lemma uint_be4: "uint (ucast (d::8 word) OR push_bit 8 (ucast (c::8 word)) OR
                push_bit 16 (ucast (b::8 word)) OR push_bit 24 (ucast (a::8 word)) :: 32 word)
   = ((uint a * 256 + uint b) * 256 + uint c) * 256 + uint d"
proof -
  have d: "uint (ucast d :: 32 word) = uint d"
    using uint_push_byte [of 0 d] by simp
  have "uint (ucast d OR push_bit 8 (ucast c) OR
                push_bit 16 (ucast b) OR push_bit 24 (ucast a) :: 32 word)
      = uint d OR push_bit 8 (uint c) OR push_bit 16 (uint b) OR push_bit 24 (uint a)"
    by (simp add: uint_or uint_push_byte d)
  also have "\<dots> = uint d OR push_bit 8 (uint c OR push_bit 8 (uint b OR push_bit 8 (uint a)))"
    by (simp add: push_bit_or)
  also have "\<dots> = ((uint a * 256 + uint b) * 256 + uint c) * 256 + uint d"
    using uint_byte_range [of b] uint_byte_range [of c] uint_byte_range [of d]
    by (simp add: or_push_bit_int [where n = 8, simplified] algebra_simps)
  finally show ?thesis .
qed

lemma and_then_simps:
  "and_then (Inr v) f = f v" "and_then (Inl e) f = Inl e"
  by (simp_all add: and_then_def)

lemma take4_nth:
  assumes "4 \<le> length b"
  shows "take 4 b = [b ! 0, b ! 1, b ! 2, b ! 3]"
proof -
  from assms obtain b0 b1 b2 b3 r where "b = b0 # b1 # b2 # b3 # r"
    by (cases b; cases "tl b"; cases "tl (tl b)"; cases "tl (tl (tl b))") auto
  then show ?thesis by simp
qed

lemma be32_big_endian:
  "be32 b = (if length b < 4 then Inl Panic else Inr (big_endian (take 4 b)))"
  by (simp add: be32_def Uint32_def and_then_def take4_nth big_endian_def uint_be4)

lemma be32_at_eq:
  assumes "0 \<le> lo" "lo + 4 \<le> hi" "hi \<le> int (length b)"
  shows "be32_at lo hi b = Inr (big_endian (bytes_at (nat lo) (nat lo + 4) b))"
proof -
  have "slice lo hi b = Inr (take (nat (hi - lo)) (drop (nat lo) b))"
    using assms by (simp add: slice_def)
  moreover have "4 \<le> nat (hi - lo)" "nat lo + 4 \<le> length b"
    using assms by linarith+
  ultimately show ?thesis
    by (auto simp: be32_at_def and_then_def be32_big_endian bytes_at_def min_def)
qed

lemma be32_at_Panic:
  assumes "int (length b) < hi"
  shows "be32_at lo hi b = Inl Panic"
  using assms by (simp add: be32_at_def and_then_def slice_def)

lemma be64_at_ok:
  assumes "0 \<le> lo" "lo + 8 \<le> hi" "hi \<le> int (length b)"
  shows "\<exists>v. be64_at lo hi b = Inr v"
proof -
  have "slice lo hi b = Inr (take (nat (hi - lo)) (drop (nat lo) b))"
    using assms by (simp add: slice_def)
  moreover have "8 \<le> nat (hi - lo)" "nat lo + 8 \<le> length b"
    using assms by linarith+
  ultimately show ?thesis
    by (simp add: be64_at_def and_then_def be64_def Uint64_def)
qed

lemma bytes_at_drop: "bytes_at lo hi (drop k b) = bytes_at (k + lo) (k + hi) b"
  by (simp add: bytes_at_def add.commute)

lemma big_endian_4_range:
  assumes "lo + 4 \<le> length b"
  shows "0 \<le> big_endian (bytes_at lo (lo + 4) b)" "big_endian (bytes_at lo (lo + 4) b) < 2 ^ 32"
proof -
  have "be32_at (int lo) (int lo + 4) b = Inr (big_endian (bytes_at lo (lo + 4) b))"
    using assms by (simp add: be32_at_eq)
  then show "0 \<le> big_endian (bytes_at lo (lo + 4) b)"
    and "big_endian (bytes_at lo (lo + 4) b) < 2 ^ 32"
    by (rule be32_at_range)+
qed

section \<open>The header decoder\<close>

lemma header_literal_ok:
  assumes "72 \<le> length buf"
  shows "\<exists>q. header_literal buf = Inr q \<and> Version q = big_endian (bytes_at 4 8 buf) \<and>
           IncompatibleFeatures q = 0 \<and> CompatibleFeatures q = 0 \<and>
           AutoclearFeatures q = 0 \<and> RefcountOrder q = 0 \<and> HeaderLength q = 72 \<and>
           ExtHeaders q = []"
proof -
  have len: "72 \<le> int (length buf)" using assms by simp
  obtain a where a: "be64_at 8 16 buf = Inr a"
    using be64_at_ok [of 8 16 buf] len by auto
  obtain b where b: "be64_at 24 32 buf = Inr b"
    using be64_at_ok [of 24 32 buf] len by auto
  obtain c where c: "be64_at 40 48 buf = Inr c"
    using be64_at_ok [of 40 48 buf] len by auto
  obtain d where d: "be64_at 48 56 buf = Inr d"
    using be64_at_ok [of 48 56 buf] len by auto
  obtain e where e: "be64_at 64 72 buf = Inr e"
    using be64_at_ok [of 64 72 buf] len by auto
  have v: "be32_at 4 8 buf = Inr (big_endian (bytes_at 4 8 buf))"
    using be32_at_eq [of 4 8 buf] len by simp
  have w: "\<exists>x. be32_at 16 20 buf = Inr x" "\<exists>x. be32_at 20 24 buf = Inr x"
    "\<exists>x. be32_at 32 36 buf = Inr x" "\<exists>x. be32_at 36 40 buf = Inr x"
    "\<exists>x. be32_at 56 60 buf = Inr x" "\<exists>x. be32_at 60 64 buf = Inr x"
    using len by (simp_all add: be32_at_eq)
  from w obtain f g h i j k where fs: "be32_at 16 20 buf = Inr f" "be32_at 20 24 buf = Inr g"
    "be32_at 32 36 buf = Inr h" "be32_at 36 40 buf = Inr i"
    "be32_at 56 60 buf = Inr j" "be32_at 60 64 buf = Inr k"
    by blast
  show ?thesis
    by (simp add: header_literal_def and_then_def a b c d e v fs)
qed

lemma Read_full:
  assumes "offset fh + length b \<le> length (content fh)"
  shows "Read fh b = (Inr (int (length b)), take (length b) (drop (offset fh) (content fh)),
                      fh\<lparr>offset := offset fh + length b\<rparr>)"
  using assms by (auto simp: Read_def Let_def min_def)

lemma Read_short:
  assumes "length (content fh) < offset fh + length b" "offset fh \<le> length (content fh)"
  shows "fst (Read fh b) = Inl ReadError \<or> (\<exists>n. fst (Read fh b) = Inr n \<and> n < int (length b))"
  using assms by (auto simp: Read_def Let_def min_def)

lemma first_read:
  assumes "72 \<le> length bs"
  shows "Read (open_file bs) (replicate 72 0) = (Inr 72, take 72 bs, \<lparr>content = bs, offset = 72\<rparr>)"
  using assms Read_full [of "open_file bs" "replicate 72 0"] by (simp add: open_file_def)

lemma decodeHeader_magic:
  assumes "72 \<le> length bs"
  shows "decodeHeader (open_file bs) =
     (if take 4 bs \<noteq> Qcow2Magic then Inl BadMagic
      else and_then (header_literal (take 72 bs)) (\<lambda>q.
        if Version q = 3 then
          and_then (slice 0 Qcow2V3HeaderSize (take 72 bs)) (\<lambda>dst.
          case Read \<lparr>content = bs, offset = 72\<rparr> dst of (r3, dst3, fh2) \<Rightarrow>
          and_then r3 (\<lambda>size3.
          if size3 < Qcow2V3HeaderSize then Inl ShortRead else
          and_then (v3_fields (dst3 @ drop (length dst3) (take 72 bs)) q) (\<lambda>q3.
            Inr (q3, fh2))))
        else Inr (q, \<lparr>content = bs, offset = 72\<rparr>)))"
proof -
  have "slice 0 4 (take 72 bs) = Inr (take 4 bs)"
    using assms by (simp add: slice_def min_def)
  then show ?thesis
    using assms
    by (simp add: decodeHeader_def make_def Qcow2V2HeaderSize_def first_read and_then_def)
qed

lemma decodeHeader_not3:
  assumes "72 \<le> length bs" "take 4 bs = Qcow2Magic" "big_endian (bytes_at 4 8 bs) \<noteq> 3"
  shows "\<exists>q. decodeHeader (open_file bs) = Inr (q, \<lparr>content = bs, offset = 72\<rparr>) \<and>
           header_literal (take 72 bs) = Inr q \<and>
           Version q = big_endian (bytes_at 4 8 bs) \<and>
           IncompatibleFeatures q = 0 \<and> CompatibleFeatures q = 0 \<and>
           AutoclearFeatures q = 0 \<and> RefcountOrder q = 0 \<and> HeaderLength q = 72 \<and>
           ExtHeaders q = []"
proof -
  have same: "bytes_at 4 8 (take 72 bs) = bytes_at 4 8 bs"
    by (simp add: bytes_at_def take_drop)
  from header_literal_ok [of "take 72 bs"] assms(1) obtain q
    where q: "header_literal (take 72 bs) = Inr q"
      "Version q = big_endian (bytes_at 4 8 (take 72 bs))"
      "IncompatibleFeatures q = 0" "CompatibleFeatures q = 0"
      "AutoclearFeatures q = 0" "RefcountOrder q = 0" "HeaderLength q = 72" "ExtHeaders q = []"
    by auto
  with assms show ?thesis
    by (simp add: decodeHeader_magic and_then_def same)
qed

lemma second_read:
  assumes "104 \<le> length bs"
  shows "Read \<lparr>content = bs, offset = 72\<rparr> (take 32 bs) =
           (Inr 32, bytes_at 72 104 bs, \<lparr>content = bs, offset = 104\<rparr>)"
  using assms Read_full [of "\<lparr>content = bs, offset = 72\<rparr>" "take 32 bs"]
  by (simp add: bytes_at_def min_def)

lemma v3_fields_eq:
  assumes "32 \<le> length buf"
  shows "v3_fields buf q =
     Inr (q\<lparr>IncompatibleFeatures := big_endian (bytes_at 0 4 buf),
            CompatibleFeatures := big_endian (bytes_at 8 12 buf),
            AutoclearFeatures := big_endian (bytes_at 16 20 buf),
            RefcountOrder := big_endian (bytes_at 24 28 buf),
            HeaderLength := big_endian (bytes_at 28 32 buf)\<rparr>)"
  using assms by (simp add: v3_fields_def and_then_def be32_at_eq)

lemma decodeHeader_v3:
  assumes "104 \<le> length bs" "take 4 bs = Qcow2Magic" "big_endian (bytes_at 4 8 bs) = 3"
  shows "\<exists>q. header_literal (take 72 bs) = Inr q \<and>
           decodeHeader (open_file bs) =
             Inr (q\<lparr>IncompatibleFeatures := big_endian (bytes_at 72 76 bs),
                    CompatibleFeatures := big_endian (bytes_at 80 84 bs),
                    AutoclearFeatures := big_endian (bytes_at 88 92 bs),
                    RefcountOrder := big_endian (bytes_at 96 100 bs),
                    HeaderLength := big_endian (bytes_at 100 104 bs)\<rparr>,
                  \<lparr>content = bs, offset = 104\<rparr>)"
proof -
  have same: "bytes_at 4 8 (take 72 bs) = bytes_at 4 8 bs"
    by (simp add: bytes_at_def take_drop)
  from header_literal_ok [of "take 72 bs"] assms(1) obtain q
    where q: "header_literal (take 72 bs) = Inr q"
      "Version q = big_endian (bytes_at 4 8 (take 72 bs))"
    by auto
  have dst: "slice 0 Qcow2V3HeaderSize (take 72 bs) = Inr (take 32 (take 72 bs))"
    using assms(1) by (simp add: slice_def Qcow2V3HeaderSize_def Qcow2V2HeaderSize_def)
  let ?buf = "bytes_at 72 104 bs @ drop (length (bytes_at 72 104 bs)) (take 72 bs)"
  have len: "length (bytes_at 72 104 bs) = 32"
    using assms(1) by (simp add: bytes_at_def)
  have parts: "bytes_at 0 4 ?buf = bytes_at 72 76 bs" "bytes_at 8 12 ?buf = bytes_at 80 84 bs"
    "bytes_at 16 20 ?buf = bytes_at 88 92 bs" "bytes_at 24 28 ?buf = bytes_at 96 100 bs"
    "bytes_at 28 32 ?buf = bytes_at 100 104 bs"
    using assms(1) by (simp_all add: bytes_at_def take_drop min_def)
  have "32 \<le> length ?buf" using len by simp
  then have "v3_fields ?buf q =
     Inr (q\<lparr>IncompatibleFeatures := big_endian (bytes_at 72 76 bs),
            CompatibleFeatures := big_endian (bytes_at 80 84 bs),
            AutoclearFeatures := big_endian (bytes_at 88 92 bs),
            RefcountOrder := big_endian (bytes_at 96 100 bs),
            HeaderLength := big_endian (bytes_at 100 104 bs)\<rparr>)"
    by (simp only: v3_fields_eq parts)
  with assms q dst show ?thesis
    by (simp add: decodeHeader_magic and_then_def same second_read
                  Qcow2V3HeaderSize_def Qcow2V2HeaderSize_def)
qed

lemma decodeHeader_v3_short:
  assumes "72 \<le> length bs" "length bs < 104" "take 4 bs = Qcow2Magic"
    "big_endian (bytes_at 4 8 bs) = 3"
  shows "decodeHeader (open_file bs) = Inl ReadError \<or> decodeHeader (open_file bs) = Inl ShortRead"
proof -
  have same: "bytes_at 4 8 (take 72 bs) = bytes_at 4 8 bs"
    by (simp add: bytes_at_def take_drop)
  from header_literal_ok [of "take 72 bs"] assms(1) obtain q
    where q: "header_literal (take 72 bs) = Inr q"
      "Version q = big_endian (bytes_at 4 8 (take 72 bs))"
    by auto
  have dst: "slice 0 Qcow2V3HeaderSize (take 72 bs) = Inr (take 32 (take 72 bs))"
    using assms(1) by (simp add: slice_def Qcow2V3HeaderSize_def Qcow2V2HeaderSize_def)
  let ?rd = "Read \<lparr>content = bs, offset = 72\<rparr> (take 32 bs)"
  have "fst ?rd = Inl ReadError \<or> (\<exists>n. fst ?rd = Inr n \<and> n < 32)"
    using Read_short [of "\<lparr>content = bs, offset = 72\<rparr>" "take 32 bs"] assms(1,2)
    by (simp add: min_def)
  with assms q dst show ?thesis
    by (auto simp: decodeHeader_magic and_then_def same
                  Qcow2V3HeaderSize_def Qcow2V2HeaderSize_def split: prod.splits)
qed


lemma readExtensionArea_eq:
  assumes "0 \<le> HeaderLength q" "offset fh \<le> length (content fh)"
  shows "if offset fh + nat (HeaderLength q) \<le> length (content fh)
         then readExtensionArea q fh =
                Inr (bytes_at (offset fh) (offset fh + nat (HeaderLength q)) (content fh))
         else readExtensionArea q fh = Inl ReadError \<or> readExtensionArea q fh = Inl ShortRead"
proof (cases "offset fh + nat (HeaderLength q) \<le> length (content fh)")
  case True
  let ?b = "replicate (nat (HeaderLength q)) (0::byte)"
  have "Read fh ?b = (Inr (HeaderLength q),
          take (nat (HeaderLength q)) (drop (offset fh) (content fh)),
          fh\<lparr>offset := offset fh + nat (HeaderLength q)\<rparr>)"
    using Read_full [of fh ?b] True assms(1) by simp
  with True assms(1) show ?thesis
    by (simp add: readExtensionArea_def make_def and_then_def bytes_at_def)
next
  case False
  let ?b = "replicate (nat (HeaderLength q)) (0::byte)"
  obtain r b' fh' where rd: "Read fh ?b = (r, b', fh')"
    by (cases "Read fh ?b") auto
  have "r = Inl ReadError \<or> (\<exists>n. r = Inr n \<and> n < HeaderLength q)"
    using Read_short [of fh ?b] False assms rd by simp
  with False assms(1) rd show ?thesis
    by (auto simp: readExtensionArea_def make_def and_then_def)
qed

lemma decodeHeader_too_short:
  assumes "length bs < 72"
  shows "decodeHeader (open_file bs) = Inl ReadError \<or> decodeHeader (open_file bs) = Inl ShortRead"
proof -
  let ?b = "replicate 72 (0::byte)"
  obtain r b' fh' where rd: "Read (open_file bs) ?b = (r, b', fh')"
    by (cases "Read (open_file bs) ?b") auto
  have "r = Inl ReadError \<or> (\<exists>n. r = Inr n \<and> n < 72)"
    using Read_short [of "open_file bs" ?b] assms rd by (simp add: open_file_def)
  with rd show ?thesis
    by (auto simp: decodeHeader_def make_def Qcow2V2HeaderSize_def and_then_def)
qed

text \<open>What a successful decode says about the file and the header.\<close>

lemma decodeHeader_Inr:
  assumes "decodeHeader (open_file bs) = Inr (q, fh)"
  shows "content fh = bs" and "offset fh = (if Version q = 3 then 104 else 72)"
    and "offset fh \<le> length bs" and "0 \<le> HeaderLength q" and "ExtHeaders q = []"
    and "Version q = big_endian (bytes_at 4 8 bs)" and "take 4 bs = Qcow2Magic"
proof -
  have len: "72 \<le> length bs"
    using assms decodeHeader_too_short [of bs] by (cases "length bs < 72") auto
  have magic: "take 4 bs = Qcow2Magic"
    using assms len by (auto simp: decodeHeader_magic split: if_splits)
  have all: "content fh = bs \<and> offset fh = (if Version q = 3 then 104 else 72) \<and>
    offset fh \<le> length bs \<and> 0 \<le> HeaderLength q \<and> ExtHeaders q = [] \<and>
    Version q = big_endian (bytes_at 4 8 bs)"
  proof (cases "big_endian (bytes_at 4 8 bs) = 3")
    case False
    from decodeHeader_not3 [OF len magic False] obtain q'
      where "decodeHeader (open_file bs) = Inr (q', \<lparr>content = bs, offset = 72\<rparr>)"
        and "Version q' = big_endian (bytes_at 4 8 bs)" and "HeaderLength q' = 72"
        and "ExtHeaders q' = []"
      by blast
    with assms have "q = q'" "fh = \<lparr>content = bs, offset = 72\<rparr>"
      and "Version q' = big_endian (bytes_at 4 8 bs)" "HeaderLength q' = 72" "ExtHeaders q' = []"
      by simp_all
    with False len show ?thesis by simp
  next
    case True
    have long: "104 \<le> length bs"
      using decodeHeader_v3_short [OF len _ magic True] assms by (cases "length bs < 104") auto
    from header_literal_ok [of "take 72 bs"] len obtain q0
      where q0: "header_literal (take 72 bs) = Inr q0" "ExtHeaders q0 = []"
        "Version q0 = big_endian (bytes_at 4 8 (take 72 bs))"
      by auto
    have same: "bytes_at 4 8 (take 72 bs) = bytes_at 4 8 bs"
      by (simp add: bytes_at_def take_drop)
    from decodeHeader_v3 [OF long magic True] assms q0 same True long
      big_endian_4_range(1) [of 100 bs]
    show ?thesis by auto
  qed
  then show "content fh = bs" and "offset fh = (if Version q = 3 then 104 else 72)"
    and "offset fh \<le> length bs" and "0 \<le> HeaderLength q" and "ExtHeaders q = []"
    and "Version q = big_endian (bytes_at 4 8 bs)"
    by blast+
  show "take 4 bs = Qcow2Magic" by (rule magic)
qed

section \<open>The walk\<close>

lemma loop_body_eq:
  "loop_body buf =
     (if length buf < 4 then Inl Panic
      else if big_endian (bytes_at 0 4 buf) = 0 then Inr Break
      else if length buf < 8 then Inl Panic
      else let sz = big_endian (bytes_at 4 8 buf) in
        if int (length buf) < 8 + sz + sz mod 8 then Inl Panic
        else Inr (Next \<lparr>Type = big_endian (bytes_at 0 4 buf), Size = sz,
                         Data = bytes_at 8 (8 + nat sz) buf\<rparr>
                       (drop (8 + nat sz + nat (sz mod 8)) buf)))"
proof (cases "length buf < 4")
  case True
  then show ?thesis
    by (simp add: loop_body_def be32_at_Panic and_then_def)
next
  case len4: False
  then have t: "be32_at 0 4 buf = Inr (big_endian (bytes_at 0 4 buf))"
    using be32_at_eq [of 0 4 buf] by simp
  show ?thesis
  proof (cases "big_endian (bytes_at 0 4 buf) = 0")
    case True
    with len4 t show ?thesis
      by (simp add: loop_body_def and_then_def HdrExtEndOfArea_def)
  next
    case tag: False
    show ?thesis
    proof (cases "length buf < 8")
      case True
      with len4 tag t show ?thesis
        by (simp add: loop_body_def and_then_def HdrExtEndOfArea_def be32_at_Panic)
    next
      case len8: False
      define sz where "sz = big_endian (bytes_at 4 8 buf)"
      have s: "be32_at 4 8 buf = Inr sz"
        using be32_at_eq [of 4 8 buf] len8 by (simp add: sz_def)
      have sz0: "0 \<le> sz"
        using s by (rule be32_at_range)
      then have round: "sz smod 8 = sz mod 8" "0 \<le> sz mod 8"
        by (simp_all add: smod_8_nonneg)
      show ?thesis
      proof (cases "int (length buf) < 8 + sz")
        case True
        then have "slice 8 (8 + sz) buf = Inl Panic"
          by (simp add: slice_def)
        moreover have "int (length buf) < 8 + sz + sz mod 8"
          using True round by linarith
        ultimately show ?thesis
          using len4 len8 tag t s
          by (simp add: loop_body_def and_then_def HdrExtEndOfArea_def flip: sz_def)
      next
        case False
        then have d: "slice 8 (8 + sz) buf = Inr (bytes_at 8 (8 + nat sz) buf)"
          using sz0 by (simp add: slice_def bytes_at_def)
        have r: "slice_from (8 + sz + sz mod 8) buf =
                   (if int (length buf) < 8 + sz + sz mod 8 then Inl Panic
                    else Inr (drop (8 + nat sz + nat (sz mod 8)) buf))"
          using sz0 round by (simp add: slice_from_def nat_add_distrib)
        show ?thesis
          using len4 len8 tag t s d r round
          by (simp add: loop_body_def and_then_def HdrExtEndOfArea_def Let_def flip: sz_def)
      qed
    qed
  qed
qed


lemma loop_body_Next_drop:
  assumes "loop_body buf = Inr (Next h rest)"
  shows "\<exists>k. 8 \<le> k \<and> k \<le> length buf \<and> rest = drop k buf \<and>
           int k = 8 + Size h + Size h mod 8 \<and> 0 \<le> Size h \<and>
           Type h = big_endian (bytes_at 0 4 buf) \<and> Type h \<noteq> 0 \<and>
           Size h = big_endian (bytes_at 4 8 buf) \<and>
           Data h = bytes_at 8 (8 + nat (Size h)) buf"
proof -
  define sz where "sz = big_endian (bytes_at 4 8 buf)"
  from assms have len: "8 \<le> length buf" and tag: "big_endian (bytes_at 0 4 buf) \<noteq> 0"
    and fit: "8 + sz + sz mod 8 \<le> int (length buf)"
    and h: "h = \<lparr>Type = big_endian (bytes_at 0 4 buf), Size = sz,
                   Data = bytes_at 8 (8 + nat sz) buf\<rparr>"
    and rest: "rest = drop (8 + nat sz + nat (sz mod 8)) buf"
    by (auto simp: loop_body_eq Let_def sz_def split: if_splits)
  have sz0: "0 \<le> sz"
    using big_endian_4_range(1) [of 4 buf] len by (simp add: sz_def)
  then have "0 \<le> sz mod 8" by simp
  with sz0 fit have "8 + nat sz + nat (sz mod 8) \<le> length buf"
    and "int (8 + nat sz + nat (sz mod 8)) = 8 + sz + sz mod 8"
    by linarith+
  with h rest tag sz0 show ?thesis
    by (intro exI [of _ "8 + nat sz + nat (sz mod 8)"]) (simp add: sz_def)
qed

lemma cursor_after_bound:
  "cursor_after n buf = Some off \<Longrightarrow> off \<le> length buf"
proof (induction n arbitrary: buf off)
  case 0
  then show ?case by simp
next
  case (Suc n)
  from Suc.prems obtain h rest off' where step: "loop_body buf = Inr (Next h rest)"
    and c: "cursor_after n rest = Some off'" and off: "off = length buf - length rest + off'"
    by (auto split: sum.splits turn.splits)
  from loop_body_Next_drop [OF step] obtain k where "k \<le> length buf" "rest = drop k buf"
    by blast
  moreover from Suc.IH [OF c] have "off' \<le> length rest" .
  ultimately show ?case using off by simp
qed

lemma walk_reaches:
  "cursor_after n buf = Some off \<Longrightarrow>
     \<exists>acc'. walkExtensions acc buf = walkExtensions acc' (drop off buf)"
proof (induction n arbitrary: buf off acc)
  case 0
  then show ?case by auto
next
  case (Suc n)
  from Suc.prems obtain h rest off' where step: "loop_body buf = Inr (Next h rest)"
    and c: "cursor_after n rest = Some off'" and off: "off = length buf - length rest + off'"
    by (auto split: sum.splits turn.splits)
  from loop_body_Next_drop [OF step] obtain k where k: "k \<le> length buf" "rest = drop k buf"
    by blast
  then have "drop off buf = drop off' rest"
    using off by (simp add: add.commute)
  moreover from Suc.IH [OF c] obtain acc'
    where "walkExtensions (acc @ [h]) rest = walkExtensions acc' (drop off' rest)"
    by blast
  moreover have "walkExtensions acc buf = walkExtensions (acc @ [h]) rest"
    using step by (subst walkExtensions.simps) simp
  ultimately show ?case by auto
qed

lemma walk_records:
  "walkExtensions acc buf = Inr exts \<Longrightarrow>
     \<exists>recs. exts = acc @ recs \<and>
       (\<forall>i<length recs. \<exists>off rest. cursor_after i buf = Some off \<and>
           loop_body (drop off buf) = Inr (Next (recs ! i) rest)) \<and>
       (\<exists>off. cursor_after (length recs) buf = Some off \<and>
           loop_body (drop off buf) = Inr Break)"
proof (induction acc buf rule: walkExtensions.induct)
  case (1 acc buf)
  show ?case
  proof (cases "loop_body buf")
    case (Inl e)
    with "1.prems" show ?thesis
      by (subst (asm) walkExtensions.simps) simp
  next
    case (Inr t)
    show ?thesis
    proof (cases t)
      case Break
      with Inr "1.prems" have "exts = acc"
        by (subst (asm) walkExtensions.simps) simp
      with Inr Break show ?thesis
        by (intro exI [of _ "[]"]) simp
    next
      case (Next h rest)
      with Inr have step: "loop_body buf = Inr (Next h rest)" by simp
      with "1.prems" have "walkExtensions (acc @ [h]) rest = Inr exts"
        by (subst (asm) walkExtensions.simps) simp
      from "1.IH" [OF Inr Next this] obtain recs where recs: "exts = (acc @ [h]) @ recs"
        and each: "\<forall>i<length recs. \<exists>off r. cursor_after i rest = Some off \<and>
           loop_body (drop off rest) = Inr (Next (recs ! i) r)"
        and last: "\<exists>off. cursor_after (length recs) rest = Some off \<and>
           loop_body (drop off rest) = Inr Break"
        by blast
      from loop_body_Next_drop [OF step] obtain k where k: "k \<le> length buf" "rest = drop k buf"
        by blast
      have shift: "cursor_after (Suc i) buf = Some (k + off) \<and> drop (k + off) buf = drop off rest"
        if "cursor_after i rest = Some off" for i off
        using that step k by (simp add: add.commute)
      have "\<exists>off r. cursor_after i buf = Some off \<and>
           loop_body (drop off buf) = Inr (Next ((h # recs) ! i) r)" if "i < length (h # recs)" for i
      proof (cases i)
        case 0
        with step show ?thesis by auto
      next
        case (Suc j)
        with that each obtain off r where "cursor_after j rest = Some off"
          "loop_body (drop off rest) = Inr (Next (recs ! j) r)"
          by auto
        with shift [of j off] Suc show ?thesis by auto
      qed
      moreover from last shift have "\<exists>off. cursor_after (length (h # recs)) buf = Some off \<and>
           loop_body (drop off buf) = Inr Break"
        by auto
      ultimately show ?thesis
        using recs by (intro exI [of _ "h # recs"]) simp
    qed
  qed
qed

lemma cursor_after_snoc:
  "cursor_after (Suc n) buf =
     (case cursor_after n buf of
        None \<Rightarrow> None
      | Some off \<Rightarrow>
          (case loop_body (drop off buf) of
             Inr (Next h rest) \<Rightarrow> Some (length buf - length rest)
           | _ \<Rightarrow> None))"
proof (induction n arbitrary: buf)
  case 0
  show ?case by (simp split: sum.splits turn.splits)
next
  case (Suc n)
  show ?case
  proof (cases "\<exists>h r. loop_body buf = Inr (Next h r)")
    case False
    then show ?thesis by (auto split: sum.splits turn.splits)
  next
    case True
    then obtain h r where step: "loop_body buf = Inr (Next h r)" by blast
    from loop_body_Next_drop [OF step] obtain k where k: "k \<le> length buf" "r = drop k buf"
      by blast
    have outer: "cursor_after (Suc m) buf = map_option (\<lambda>j. k + j) (cursor_after m r)" for m
      using step k by simp
    show ?thesis
    proof (cases "cursor_after n r")
      case None
      then show ?thesis
        by (simp only: outer Suc.IH [of r]) simp
    next
      case (Some off)
      have off: "off \<le> length r" using Some by (rule cursor_after_bound)
      have d: "drop (k + off) buf = drop off r"
        using k by (simp add: add.commute)
      show ?thesis
      proof (cases "\<exists>h' r'. loop_body (drop off r) = Inr (Next h' r')")
        case False
        then show ?thesis
          by (simp only: outer Suc.IH [of r] Some) (auto simp: d split: sum.splits turn.splits)
      next
        case True
        then obtain h' r' where step': "loop_body (drop off r) = Inr (Next h' r')" by blast
        from loop_body_shorter [OF step'] have "length r' < length r" by simp
        then have "k + (length r - length r') = length buf - length r'"
          using k by simp
        then show ?thesis
          by (simp only: outer Suc.IH [of r] Some) (simp add: d step')
      qed
    qed
  qed
qed

lemma cursor_after_Suc_Some:
  assumes "cursor_after (Suc n) buf = Some off'"
  shows "\<exists>off. cursor_after n buf = Some off \<and> off + 8 \<le> off' \<and>
           (\<exists>h rest. loop_body (drop off buf) = Inr (Next h rest))"
proof -
  from assms obtain off h rest where c: "cursor_after n buf = Some off"
    and step: "loop_body (drop off buf) = Inr (Next h rest)"
    and off': "off' = length buf - length rest"
    unfolding cursor_after_snoc
    by (auto simp del: cursor_after.simps split: option.splits sum.splits turn.splits)
  from loop_body_Next_drop [OF step] obtain k where "8 \<le> k" "k \<le> length (drop off buf)"
    "rest = drop k (drop off buf)"
    by blast
  moreover have "off \<le> length buf" using c by (rule cursor_after_bound)
  ultimately have "off + 8 \<le> off'"
    using off' by simp
  with c step show ?thesis by blast
qed

lemma cursor_after_earlier:
  "cursor_after (i + d) buf = Some oj \<Longrightarrow>
     \<exists>oi. cursor_after i buf = Some oi \<and> oi + 8 * d \<le> oj"
proof (induction d arbitrary: oj)
  case 0
  then show ?case by simp
next
  case (Suc d)
  from Suc.prems have "cursor_after (Suc (i + d)) buf = Some oj" by simp
  from cursor_after_Suc_Some [OF this] obtain om
    where "cursor_after (i + d) buf = Some om" "om + 8 \<le> oj"
    by blast
  with Suc.IH [of om] show ?case by auto
qed

lemma cursor_after_stops:
  assumes "cursor_after n buf = Some off" "loop_body (drop off buf) = Inr Break"
  shows "cursor_after m buf = Some om \<Longrightarrow> m \<le> n"
proof (rule ccontr)
  assume m: "cursor_after m buf = Some om" and "\<not> m \<le> n"
  then have "m = Suc n + (m - Suc n)" by simp
  with m cursor_after_earlier [of "Suc n" "m - Suc n" buf om]
  obtain x where "cursor_after (Suc n) buf = Some x" by auto
  with assms show False
    unfolding cursor_after_snoc by (simp del: cursor_after.simps)
qed


lemma walker_stride:
  assumes "loop_body buf = Inr (Next h rest)"
  shows "int (length buf) - int (length rest) = 8 + Size h + Size h mod 8"
proof -
  from loop_body_Next_drop [OF assms] obtain k where "k \<le> length buf" "rest = drop k buf"
    "int k = 8 + Size h + Size h mod 8"
    by blast
  then show ?thesis by simp
qed

lemma stride_agrees_iff:
  "8 + s + s mod 8 = aligned_stride s \<longleftrightarrow> s mod 8 = 0 \<or> s mod 8 = 4"
  by (auto simp: aligned_stride_def)

lemma record_at_cursor:
  assumes "cursor_after n buf = Some off" "loop_body (drop off buf) = Inr (Next h rest)"
  shows "off + 8 + nat (Size h) \<le> length buf" and "0 \<le> Size h"
    and "Type h = big_endian (bytes_at off (off + 4) buf)" and "Type h \<noteq> 0"
    and "Size h = big_endian (bytes_at (off + 4) (off + 8) buf)"
    and "Data h = bytes_at (off + 8) (off + 8 + nat (Size h)) buf"
proof -
  have off: "off \<le> length buf" using assms(1) by (rule cursor_after_bound)
  from loop_body_Next_drop [OF assms(2)] obtain k where k: "k \<le> length (drop off buf)"
    "int k = 8 + Size h + Size h mod 8" and sz: "0 \<le> Size h"
    and t: "Type h = big_endian (bytes_at 0 4 (drop off buf))" "Type h \<noteq> 0"
    and s: "Size h = big_endian (bytes_at 4 8 (drop off buf))"
    and d: "Data h = bytes_at 8 (8 + nat (Size h)) (drop off buf)"
    by blast
  from sz have "0 \<le> Size h mod 8" by simp
  with k sz off show "off + 8 + nat (Size h) \<le> length buf" by simp
  show "0 \<le> Size h" by (rule sz)
  show "Type h = big_endian (bytes_at off (off + 4) buf)" using t(1) by (simp add: bytes_at_drop)
  show "Type h \<noteq> 0" by (rule t(2))
  show "Size h = big_endian (bytes_at (off + 4) (off + 8) buf)" using s by (simp add: bytes_at_drop)
  show "Data h = bytes_at (off + 8) (off + 8 + nat (Size h)) buf"
    using d by (simp add: bytes_at_drop add.assoc)
qed

lemma size_8_record_consumes_16_bytes:
  "loop_body ext_size8 =
     Inr (Next \<lparr>Type = 1, Size = 8, Data = [1, 2, 3, 4, 5, 6, 7, 8]\<rparr> (drop 16 ext_size8)) \<and>
   aligned_stride 8 = 16"
  by code_simp

lemma short_terminator_accepted:
  "walkExtensions exts [0, 0, 0, 0] = Inr exts"
  by (subst walkExtensions.simps) (simp add: loop_body_eq big_endian_def bytes_at_def)

text \<open>
  What a successful walk returns, told in terms of the cursors the program itself goes
  through: the \<open>i\<close>-th element of the list is the record read at the \<open>i\<close>-th cursor,
  with whatever nonzero type stands there; the cursor after the last element stands on
  a zero type; there is no further cursor; and the cursors increase. These cursors move
  by \<open>8 + s + s mod 8\<close>, so they are the record boundaries of the format only as
  long as every payload size is 0 or 4 modulo 8.
\<close>

lemma walk_lists_records_at_its_cursors:
  assumes "walkExtensions [] buf = Inr exts"
  shows "(\<forall>i<length exts. \<exists>off. cursor_after i buf = Some off \<and> off + 8 \<le> length buf \<and>
            Type (exts ! i) = big_endian (bytes_at off (off + 4) buf) \<and>
            Type (exts ! i) \<noteq> HdrExtEndOfArea) \<and>
         (\<exists>off. cursor_after (length exts) buf = Some off \<and> off + 4 \<le> length buf \<and>
            big_endian (bytes_at off (off + 4) buf) = HdrExtEndOfArea) \<and>
         (\<forall>n off. cursor_after n buf = Some off \<longrightarrow> n \<le> length exts) \<and>
         (\<forall>i j oi oj. i < j \<and> cursor_after i buf = Some oi \<and> cursor_after j buf = Some oj
            \<longrightarrow> oi < oj)"
proof -
  from walk_records [OF assms] have
    each: "\<forall>i<length exts. \<exists>off rest. cursor_after i buf = Some off \<and>
             loop_body (drop off buf) = Inr (Next (exts ! i) rest)"
    and last: "\<exists>off. cursor_after (length exts) buf = Some off \<and>
             loop_body (drop off buf) = Inr Break"
    by auto
  have "\<exists>off. cursor_after i buf = Some off \<and> off + 8 \<le> length buf \<and>
            Type (exts ! i) = big_endian (bytes_at off (off + 4) buf) \<and>
            Type (exts ! i) \<noteq> HdrExtEndOfArea" if "i < length exts" for i
  proof -
    from each that obtain off rest where c: "cursor_after i buf = Some off"
      and step: "loop_body (drop off buf) = Inr (Next (exts ! i) rest)"
      by blast
    from record_at_cursor(1,3,4) [OF c step] c show ?thesis
      by (auto simp: HdrExtEndOfArea_def)
  qed
  moreover have "\<exists>off. cursor_after (length exts) buf = Some off \<and> off + 4 \<le> length buf \<and>
            big_endian (bytes_at off (off + 4) buf) = HdrExtEndOfArea"
  proof -
    from last obtain off where c: "cursor_after (length exts) buf = Some off"
      and stop: "loop_body (drop off buf) = Inr Break"
      by blast
    have "off \<le> length buf" using c by (rule cursor_after_bound)
    with stop have "off + 4 \<le> length buf \<and> big_endian (bytes_at off (off + 4) buf) = 0"
      by (auto simp: loop_body_eq bytes_at_drop Let_def split: if_splits)
    with c show ?thesis by (simp add: HdrExtEndOfArea_def)
  qed
  moreover have "n \<le> length exts" if "cursor_after n buf = Some off" for n off
    using last that cursor_after_stops by blast
  moreover have "oi < oj"
    if "i < j" "cursor_after i buf = Some oi" "cursor_after j buf = Some oj" for i j oi oj
  proof -
    from that(1) have j: "j = i + (j - i)" and pos: "0 < j - i" by simp_all
    from that(3) j have "cursor_after (i + (j - i)) buf = Some oj" by simp
    from cursor_after_earlier [OF this] that(2) have "oi + 8 * (j - i) \<le> oj" by simp
    with pos show ?thesis by simp
  qed
  ultimately show ?thesis by blast
qed

section \<open>The header decoder: claims\<close>

text \<open>
  C8. An input of at least 72 bytes whose first four bytes are not
  \<open>0x51 0x46 0x49 0xFB\<close> is rejected as not being a qcow file, whatever the bytes that
  follow, and no header is produced: the header decoder fails with \<open>BadMagic\<close>, and
  so does the whole run on the file.
\<close>

theorem bad_magic_rejected:
  assumes "72 \<le> length bs" and "take 4 bs \<noteq> Qcow2Magic"
  shows "decodeHeader (open_file bs) = Inl BadMagic \<and> main_file (open_file bs) = Inl BadMagic"
  using assms by (simp add: decodeHeader_magic main_file_def and_then_def)

theorem bad_magic_rejected_witness:
  "72 \<le> length not_qcow \<and> take 4 not_qcow \<noteq> Qcow2Magic \<and>
   decodeHeader (open_file not_qcow) = Inl BadMagic \<and>
   main_file (open_file not_qcow) = Inl BadMagic"
proof -
  have len: "72 \<le> length not_qcow"
    by (simp add: not_qcow_def)
  have magic: "take 4 not_qcow \<noteq> Qcow2Magic"
    by (simp add: not_qcow_def Qcow2Magic_def)
  from bad_magic_rejected [OF len magic] len magic show ?thesis
    by simp
qed

text \<open>
  C7. For an input of at least 72 bytes with the signature and the version field equal
  to 2, the decoder returns a header with \<open>Version = 2\<close> and \<open>HeaderLength = 72\<close>, and
  the four other version-3 fields are zero.
\<close>

theorem v2_header_decoded:
  assumes "72 \<le> length bs" and "take 4 bs = Qcow2Magic"
    and "big_endian (bytes_at 4 8 bs) = 2"
  shows "\<exists>q fh. decodeHeader (open_file bs) = Inr (q, fh) \<and>
           Version q = 2 \<and> HeaderLength q = 72 \<and>
           IncompatibleFeatures q = 0 \<and> CompatibleFeatures q = 0 \<and>
           AutoclearFeatures q = 0 \<and> RefcountOrder q = 0"
proof -
  have "big_endian (bytes_at 4 8 bs) \<noteq> 3"
    using assms(3) by simp
  from decodeHeader_not3 [OF assms(1,2) this] assms(3) show ?thesis
    by auto
qed

theorem v2_header_decoded_witness:
  "72 \<le> length v2_file \<and> take 4 v2_file = Qcow2Magic \<and>
   big_endian (bytes_at 4 8 v2_file) = 2 \<and>
   (\<exists>q fh. decodeHeader (open_file v2_file) = Inr (q, fh) \<and>
           Version q = 2 \<and> HeaderLength q = 72 \<and>
           IncompatibleFeatures q = 0 \<and> CompatibleFeatures q = 0 \<and>
           AutoclearFeatures q = 0 \<and> RefcountOrder q = 0)"
proof -
  have len: "72 \<le> length v2_file"
    by (simp add: v2_file_def)
  have magic: "take 4 v2_file = Qcow2Magic"
    by (simp add: v2_file_def Qcow2Magic_def)
  have version: "big_endian (bytes_at 4 8 v2_file) = 2"
    by (simp add: v2_file_def big_endian_def bytes_at_def)
  from v2_header_decoded [OF len magic version] len magic version show ?thesis
    by simp
qed

text \<open>
  C5, as amended. The program has no check of the version: it compares it with 3 and
  nothing else. For an input of at least 72 bytes with the signature whose version
  field is neither 2 nor 3, the header decoder does not fail: it returns the header
  decoded as for version 2, with \<open>Version\<close> holding the value read,
  \<open>HeaderLength = 72\<close> and the version-3 fields zero, having consumed 72 bytes.
\<close>

theorem other_version_decoded_as_v2:
  assumes "72 \<le> length bs" and "take 4 bs = Qcow2Magic"
    and "big_endian (bytes_at 4 8 bs) \<noteq> 2" and "big_endian (bytes_at 4 8 bs) \<noteq> 3"
  shows "\<exists>q. decodeHeader (open_file bs) = Inr (q, \<lparr>content = bs, offset = 72\<rparr>) \<and>
           Version q = big_endian (bytes_at 4 8 bs) \<and> HeaderLength q = 72 \<and>
           IncompatibleFeatures q = 0 \<and> CompatibleFeatures q = 0 \<and>
           AutoclearFeatures q = 0 \<and> RefcountOrder q = 0"
  using decodeHeader_not3 [OF assms(1,2,4)] by auto

theorem other_version_decoded_as_v2_witness:
  "72 \<le> length v4_file \<and> take 4 v4_file = Qcow2Magic \<and>
   big_endian (bytes_at 4 8 v4_file) \<noteq> 2 \<and> big_endian (bytes_at 4 8 v4_file) \<noteq> 3 \<and>
   (\<exists>q. decodeHeader (open_file v4_file) = Inr (q, \<lparr>content = v4_file, offset = 72\<rparr>) \<and>
           Version q = big_endian (bytes_at 4 8 v4_file) \<and> HeaderLength q = 72 \<and>
           IncompatibleFeatures q = 0 \<and> CompatibleFeatures q = 0 \<and>
           AutoclearFeatures q = 0 \<and> RefcountOrder q = 0)"
proof -
  have len: "72 \<le> length v4_file"
    by (simp add: v4_file_def)
  have magic: "take 4 v4_file = Qcow2Magic"
    by (simp add: v4_file_def Qcow2Magic_def)
  have version: "big_endian (bytes_at 4 8 v4_file) = 4"
    by (simp add: v4_file_def big_endian_def bytes_at_def)
  then have not2: "big_endian (bytes_at 4 8 v4_file) \<noteq> 2"
    and not3: "big_endian (bytes_at 4 8 v4_file) \<noteq> 3"
    by simp_all
  from other_version_decoded_as_v2 [OF len magic not2 not3] len magic not2 not3
  show ?thesis by simp
qed

text \<open>
  The claim as written asks for a failure on such an input. On \<open>v4_file\<close>, whose
  version is 4, the decoder returns a header.
\<close>

theorem version_4_is_decoded:
  "decodeHeader (open_file v4_file) =
   Inr (\<lparr>Version = 4, BackingFileOffset = 0, BackingFileSize = 0,
         ClusterBits = 0, Size_hdr = 0, CryptMethod = 0, L1Size = 0,
         L1TableOffset = 0, RefcountTableOffset = 0,
         RefcountTableClusters = 0, NbSnapshots = 0, SnapshotsOffset = 0,
         IncompatibleFeatures = 0, CompatibleFeatures = 0,
         AutoclearFeatures = 0, RefcountOrder = 0, HeaderLength = 72,
         ExtHeaders = []\<rparr>, \<lparr>content = v4_file, offset = 72\<rparr>)"
  by code_simp

text \<open>
  C2. The claim is that the three feature fields of a version-3 header are the 64-bit
  big-endian integers at bytes \<open>[72:80]\<close>, \<open>[80:88]\<close> and \<open>[88:96]\<close>. The program
  passes each of these 8-byte slices to \<^verbatim>\<open>be32\<close>, which reads the first four bytes of
  its argument: on \<open>v3_file\<close> the three integers are 1, 2 and 4 and the three decoded
  fields are 0. \<open>RefcountOrder\<close> and \<open>HeaderLength\<close> are the 32-bit integers at
  \<open>[96:100]\<close> and \<open>[100:104]\<close>, here 4 and 8.
\<close>

theorem v3_feature_fields_read_four_bytes:
  "big_endian (bytes_at 72 80 v3_file) = 1 \<and>
   big_endian (bytes_at 80 88 v3_file) = 2 \<and>
   big_endian (bytes_at 88 96 v3_file) = 4 \<and>
   decodeHeader (open_file v3_file) =
   Inr (\<lparr>Version = 3, BackingFileOffset = 0, BackingFileSize = 0,
         ClusterBits = 0, Size_hdr = 0, CryptMethod = 0, L1Size = 0,
         L1TableOffset = 0, RefcountTableOffset = 0,
         RefcountTableClusters = 0, NbSnapshots = 0, SnapshotsOffset = 0,
         IncompatibleFeatures = 0, CompatibleFeatures = 0,
         AutoclearFeatures = 0, RefcountOrder = 4, HeaderLength = 8,
         ExtHeaders = []\<rparr>, \<lparr>content = v3_file, offset = 104\<rparr>)"
proof -
  have "big_endian (bytes_at 72 80 v3_file) = 1" "big_endian (bytes_at 80 88 v3_file) = 2"
    "big_endian (bytes_at 88 96 v3_file) = 4"
    by (simp_all add: v3_file_def big_endian_def bytes_at_def)
  moreover have "decodeHeader (open_file v3_file) =
   Inr (\<lparr>Version = 3, BackingFileOffset = 0, BackingFileSize = 0,
         ClusterBits = 0, Size_hdr = 0, CryptMethod = 0, L1Size = 0,
         L1TableOffset = 0, RefcountTableOffset = 0,
         RefcountTableClusters = 0, NbSnapshots = 0, SnapshotsOffset = 0,
         IncompatibleFeatures = 0, CompatibleFeatures = 0,
         AutoclearFeatures = 0, RefcountOrder = 4, HeaderLength = 8,
         ExtHeaders = []\<rparr>, \<lparr>content = v3_file, offset = 104\<rparr>)"
    by code_simp
  ultimately show ?thesis by simp
qed

text \<open>
  C6. Once the fixed fields are consumed (72 bytes when the version is not 3, 104 when
  it is), the program reads \<open>HeaderLength\<close> further bytes and walks exactly those
  as the extension area: \<open>HeaderLength\<close> is the size of the region that begins right
  after the fixed fields, not a size counted from offset 0. When the file has fewer
  bytes left, the run stops with a read error or a short read.
\<close>

theorem extension_area_follows_fixed_fields:
  assumes "decodeHeader (open_file bs) = Inr (q, fh)"
  shows "offset fh = (if Version q = 3 then 104 else 72) \<and>
         (if offset fh + nat (HeaderLength q) \<le> length bs
          then readExtensionArea q fh =
                 Inr (bytes_at (offset fh) (offset fh + nat (HeaderLength q)) bs) \<and>
               main_file (open_file bs) =
                 and_then (walkExtensions []
                             (bytes_at (offset fh) (offset fh + nat (HeaderLength q)) bs))
                          (\<lambda>exts. Inr (q\<lparr>ExtHeaders := exts\<rparr>))
          else main_file (open_file bs) = Inl ReadError \<or>
               main_file (open_file bs) = Inl ShortRead)"
proof -
  note d = decodeHeader_Inr [OF assms]
  have m: "main_file (open_file bs) =
     and_then (readExtensionArea q fh) (\<lambda>buf.
     and_then (walkExtensions [] buf) (\<lambda>exts. Inr (q\<lparr>ExtHeaders := exts\<rparr>)))"
    using assms d(5) by (simp add: main_file_def and_then_simps)
  have r: "if offset fh + nat (HeaderLength q) \<le> length bs
         then readExtensionArea q fh =
                Inr (bytes_at (offset fh) (offset fh + nat (HeaderLength q)) bs)
         else readExtensionArea q fh = Inl ReadError \<or> readExtensionArea q fh = Inl ShortRead"
    using readExtensionArea_eq [of q fh] d(1,3,4) by simp
  show ?thesis
  proof (cases "offset fh + nat (HeaderLength q) \<le> length bs")
    case True
    with r m d(2) show ?thesis by (simp add: and_then_def)
  next
    case False
    with r m d(2) show ?thesis by (auto simp: and_then_def)
  qed
qed

theorem extension_area_follows_fixed_fields_witness:
  "decodeHeader (open_file v3_file) =
     Inr (\<lparr>Version = 3, BackingFileOffset = 0, BackingFileSize = 0,
           ClusterBits = 0, Size_hdr = 0, CryptMethod = 0, L1Size = 0,
           L1TableOffset = 0, RefcountTableOffset = 0,
           RefcountTableClusters = 0, NbSnapshots = 0, SnapshotsOffset = 0,
           IncompatibleFeatures = 0, CompatibleFeatures = 0,
           AutoclearFeatures = 0, RefcountOrder = 4, HeaderLength = 8,
           ExtHeaders = []\<rparr>, \<lparr>content = v3_file, offset = 104\<rparr>) \<and>
   104 + 8 \<le> length v3_file \<and>
   readExtensionArea
     \<lparr>Version = 3, BackingFileOffset = 0, BackingFileSize = 0,
           ClusterBits = 0, Size_hdr = 0, CryptMethod = 0, L1Size = 0,
           L1TableOffset = 0, RefcountTableOffset = 0,
           RefcountTableClusters = 0, NbSnapshots = 0, SnapshotsOffset = 0,
           IncompatibleFeatures = 0, CompatibleFeatures = 0,
           AutoclearFeatures = 0, RefcountOrder = 4, HeaderLength = 8,
           ExtHeaders = []\<rparr> \<lparr>content = v3_file, offset = 104\<rparr> =
     Inr (bytes_at 104 112 v3_file)"
proof -
  let ?q = "\<lparr>Version = 3, BackingFileOffset = 0, BackingFileSize = 0,
           ClusterBits = 0, Size_hdr = 0, CryptMethod = 0, L1Size = 0,
           L1TableOffset = 0, RefcountTableOffset = 0,
           RefcountTableClusters = 0, NbSnapshots = 0, SnapshotsOffset = 0,
           IncompatibleFeatures = 0, CompatibleFeatures = 0,
           AutoclearFeatures = 0, RefcountOrder = 4, HeaderLength = 8,
           ExtHeaders = []\<rparr>"
  have d: "decodeHeader (open_file v3_file) = Inr (?q, \<lparr>content = v3_file, offset = 104\<rparr>)"
    by code_simp
  have len: "104 + 8 \<le> length v3_file"
    by (simp add: v3_file_def)
  from extension_area_follows_fixed_fields [OF d] d len show ?thesis
    by simp
qed

section \<open>The walk: claims\<close>

text \<open>
  C1. The claim is that a record with payload size \<open>s\<close> moves the cursor by
  \<open>8 + s + (if s mod 8 = 0 then 0 else 8 - s mod 8)\<close>, hence by 16 for \<open>s = 5\<close>.
  The program computes \<^verbatim>\<open>round := exthdr.Size % 8\<close> and moves by \<open>8 + s + s mod 8\<close>
  (\<open>walker_stride\<close>), which is the aligned stride only when \<open>s mod 8\<close> is 0 or 4
  (\<open>stride_agrees_iff\<close>). On \<open>ext_size5\<close> the first record moves the cursor by 18, so
  the second record is read two bytes late: its type comes out as \<open>0x20000\<close>
  instead of 2.
\<close>

theorem size_5_record_consumes_18_bytes:
  "loop_body ext_size5 =
     Inr (Next \<lparr>Type = 1, Size = 5, Data = [1, 2, 3, 4, 5]\<rparr> (drop 18 ext_size5)) \<and>
   cursor_after 1 ext_size5 = Some 18 \<and> aligned_stride 5 = 16 \<and>
   walkExtensions [] ext_size5 =
     Inr [\<lparr>Type = 1, Size = 5, Data = [1, 2, 3, 4, 5]\<rparr>,
          \<lparr>Type = 131072, Size = 0, Data = []\<rparr>]"
  by code_simp

text \<open>
  C3, as amended. The program has no error value for a truncated record: the slice
  expression \<^verbatim>\<open>buf[8 : 8+exthdr.Size]\<close> is checked by the Go runtime. When the walk
  reaches a record whose declared size exceeds the bytes that remain after its 8-byte
  header, it stops there with a run-time panic: no extension list is returned and no
  byte outside the buffer is read.
\<close>

theorem truncated_record_panics:
  assumes "cursor_after n buf = Some off" and "off + 8 \<le> length buf"
    and "big_endian (bytes_at off (off + 4) buf) \<noteq> HdrExtEndOfArea"
    and "int (length buf) - int (off + 8) < big_endian (bytes_at (off + 4) (off + 8) buf)"
  shows "walkExtensions exts buf = Inl Panic"
proof -
  from walk_reaches [OF assms(1)] obtain acc
    where "walkExtensions exts buf = walkExtensions acc (drop off buf)"
    by blast
  moreover have "loop_body (drop off buf) = Inl Panic"
  proof -
    let ?sz = "big_endian (bytes_at (off + 4) (off + 8) buf)"
    have "0 \<le> ?sz"
      using big_endian_4_range(1) [of "off + 4" buf] assms(2) by (simp add: add.assoc)
    then have "0 \<le> ?sz mod 8" by simp
    with assms(4) have "int (length buf) - int off < 8 + ?sz + ?sz mod 8" by simp
    with assms(2,3) show ?thesis
      by (simp add: loop_body_eq bytes_at_drop HdrExtEndOfArea_def Let_def)
  qed
  ultimately show ?thesis
    by (subst (asm) (2) walkExtensions.simps) simp
qed

theorem truncated_record_panics_witness:
  "cursor_after 1 ext_truncated = Some 8 \<and> 8 + 8 \<le> length ext_truncated \<and>
   big_endian (bytes_at 8 (8 + 4) ext_truncated) \<noteq> HdrExtEndOfArea \<and>
   int (length ext_truncated) - int (8 + 8) < big_endian (bytes_at (8 + 4) (8 + 8) ext_truncated) \<and>
   walkExtensions [] ext_truncated = Inl Panic"
proof -
  have c: "cursor_after 1 ext_truncated = Some 8"
    by code_simp
  have len: "8 + 8 \<le> length ext_truncated"
    by (simp add: ext_truncated_def)
  have tag: "big_endian (bytes_at 8 (8 + 4) ext_truncated) \<noteq> HdrExtEndOfArea"
    by (simp add: ext_truncated_def big_endian_def bytes_at_def HdrExtEndOfArea_def)
  have sz: "int (length ext_truncated) - int (8 + 8)
              < big_endian (bytes_at (8 + 4) (8 + 8) ext_truncated)"
    by (simp add: ext_truncated_def big_endian_def bytes_at_def)
  from truncated_record_panics [OF c len tag sz, of "[]"] c len tag sz show ?thesis
    by blast
qed

text \<open>
  The claim as written asks for a \<open>TruncatedExtension\<close> error and no panic. On
  \<open>ext_truncated\<close> the walk panics.
\<close>

theorem truncated_record_counterexample:
  "walkExtensions [] ext_truncated = Inl Panic"
  by code_simp

text \<open>
  C4, as amended. The program has no error value for a missing terminator either.
  When the walk reaches a cursor with fewer than 8 bytes left and those bytes do not
  begin with a zero type (fewer than 4 are left, or the type read is not 0), it stops
  with a run-time panic: no extension list is returned and no byte outside the buffer
  is read. (Four to seven bytes that begin with a zero type end the walk normally:
  \<open>short_terminator_accepted\<close>.)
\<close>

theorem exhausted_buffer_panics:
  assumes "cursor_after n buf = Some off" and "length buf < off + 8"
    and "length buf < off + 4 \<or> big_endian (bytes_at off (off + 4) buf) \<noteq> HdrExtEndOfArea"
  shows "walkExtensions exts buf = Inl Panic"
proof -
  from walk_reaches [OF assms(1)] obtain acc
    where "walkExtensions exts buf = walkExtensions acc (drop off buf)"
    by blast
  moreover have "loop_body (drop off buf) = Inl Panic"
    using assms(2,3) by (auto simp: loop_body_eq bytes_at_drop HdrExtEndOfArea_def)
  ultimately show ?thesis
    by (subst (asm) (2) walkExtensions.simps) simp
qed

theorem exhausted_buffer_panics_witness:
  "cursor_after 2 ext_unterminated = Some 16 \<and> length ext_unterminated < 16 + 8 \<and>
   length ext_unterminated < 16 + 4 \<and>
   walkExtensions [] ext_unterminated = Inl Panic"
proof -
  have c: "cursor_after 2 ext_unterminated = Some 16"
    by code_simp
  have len: "length ext_unterminated < 16 + 8"
    by (simp add: ext_unterminated_def)
  have none: "length ext_unterminated < 16 + 4"
    by (simp add: ext_unterminated_def)
  then have tag: "length ext_unterminated < 16 + 4 \<or>
    big_endian (bytes_at 16 (16 + 4) ext_unterminated) \<noteq> HdrExtEndOfArea"
    by (rule disjI1)
  from exhausted_buffer_panics [OF c len tag, of "[]"] c len none show ?thesis
    by blast
qed

text \<open>
  The claim as written asks for a \<open>MissingTerminator\<close> error and no panic. On
  \<open>ext_unterminated\<close>, where the buffer ends after two records, the walk panics.
\<close>

theorem missing_terminator_counterexample:
  "walkExtensions [] ext_unterminated = Inl Panic"
  by code_simp

text \<open>
  C9. The claim is that the list of a successful walk holds every record of the
  extension area with a nonzero type, in the order of the area, and nothing else. The
  program appends what it reads at each of its cursors without looking at the type,
  but its cursor moves by \<open>8 + s + s mod 8\<close> (the slip of C1), so after a payload
  whose size is not 0 or 4 modulo 8 it no longer stands on a record. In
  \<open>ext_named_tags\<close> the records are a backing-file-format record of size 5 at
  offset 0, a feature-name-table record of size 0 at offset 16 and the terminator at
  offset 24. The walk succeeds and returns two records: the first one, and one of type
  \<open>0xF8570000\<close> read at offset 18. The feature-name-table record is not in the list,
  and the second element of the list is no record of the area.
\<close>

theorem unaligned_record_hides_the_next_one:
  "big_endian (bytes_at 0 4 ext_named_tags) = HdrExtBackingFileFormat \<and>
   big_endian (bytes_at 4 8 ext_named_tags) = 5 \<and>
   aligned_stride 5 = 16 \<and>
   big_endian (bytes_at 16 20 ext_named_tags) = HdrExtFeatureNameTable \<and>
   big_endian (bytes_at 20 24 ext_named_tags) = 0 \<and>
   aligned_stride 0 = 8 \<and>
   big_endian (bytes_at 24 28 ext_named_tags) = HdrExtEndOfArea \<and>
   walkExtensions [] ext_named_tags =
     Inr [\<lparr>Type = HdrExtBackingFileFormat, Size = 5, Data = [0x71, 0x63, 0x6F, 0x77, 0x32]\<rparr>,
          \<lparr>Type = 0xF8570000, Size = 0, Data = []\<rparr>] \<and>
   HdrExtFeatureNameTable \<noteq> 0xF8570000"
  by code_simp

text \<open>
  C10. For every record of a successful walk, \<open>Size\<close> is the 32-bit big-endian
  integer at bytes \<open>[4:8]\<close> of the record and \<open>Data\<close> is the \<open>Size\<close> bytes of the
  input buffer that follow the 8-byte record header. The walk makes no assignment to
  an element of the buffer (it only re-slices it), which is why the buffer is a value
  here and \<open>Data\<close>, a view of the same array in the program, denotes these bytes of
  the input for good.
\<close>

theorem record_size_and_data_from_buffer:
  assumes "walkExtensions [] buf = Inr exts" and "i < length exts"
  shows "\<exists>off. cursor_after i buf = Some off \<and>
           off + 8 + nat (Size (exts ! i)) \<le> length buf \<and>
           Size (exts ! i) = big_endian (bytes_at (off + 4) (off + 8) buf) \<and>
           Data (exts ! i) = bytes_at (off + 8) (off + 8 + nat (Size (exts ! i))) buf \<and>
           int (length (Data (exts ! i))) = Size (exts ! i)"
proof -
  from walk_records [OF assms(1)] assms(2) obtain off rest
    where c: "cursor_after i buf = Some off"
      and step: "loop_body (drop off buf) = Inr (Next (exts ! i) rest)"
    by auto
  note r = record_at_cursor [OF c step]
  from r(1,2,6) have "int (length (Data (exts ! i))) = Size (exts ! i)"
    by (simp add: bytes_at_def)
  with c r(1,5,6) show ?thesis by blast
qed

theorem record_size_and_data_from_buffer_witness:
  "walkExtensions [] ext_other_tags = Inr other_tags_records \<and>
   1 < length other_tags_records \<and>
   (\<exists>off. cursor_after 1 ext_other_tags = Some off \<and>
      off + 8 + nat (Size (other_tags_records ! 1)) \<le> length ext_other_tags \<and>
      Size (other_tags_records ! 1) = big_endian (bytes_at (off + 4) (off + 8) ext_other_tags) \<and>
      Data (other_tags_records ! 1) =
        bytes_at (off + 8) (off + 8 + nat (Size (other_tags_records ! 1))) ext_other_tags \<and>
      int (length (Data (other_tags_records ! 1))) = Size (other_tags_records ! 1))"
proof -
  have w: "walkExtensions [] ext_other_tags = Inr other_tags_records"
    by code_simp
  have i: "1 < length other_tags_records"
    by (simp add: other_tags_records_def)
  from record_size_and_data_from_buffer [OF w i] w i show ?thesis
    by blast
qed

end
